theory Spec2Isabelle
  imports Complex_Main
begin

section \<open>Reverse-mode automatic differentiation: the data model of \<^verbatim>\<open>Reverse.py\<close>\<close>

text \<open>
  Python objects live on a heap and are shared by reference; the model makes the heap
  explicit.  The heap is the list of all \<^verbatim>\<open>Node\<close> objects in order of creation, and a
  reference to a node is its index in that list, so "created after" is "has a larger
  index".  Python's numbers are idealised as real numbers: the rounding of floats is not
  modelled.  The range of floats is modelled where the interpreter acts on it, in the
  power operator \<^verbatim>\<open>**\<close>, which raises \<^verbatim>\<open>OverflowError\<close> for a result beyond the
  largest float and delivers zero for a result too small to be a float; there a number
  is read as a \<^verbatim>\<open>float\<close> (the exact arithmetic of very large \<^verbatim>\<open>int\<close> values is not
  modelled).
\<close>

type_synonym ref = nat

record node =
  val :: real
  children :: "(ref \<times> real) list"
  der :: "real option"

type_synonym heap = "node list"

text \<open>
  A Python value as the operators see it: a number (\<^verbatim>\<open>int\<close> or \<^verbatim>\<open>float\<close>), a reference
  to a \<^verbatim>\<open>Node\<close>, a list, or any other object (\<^verbatim>\<open>None\<close>, a complex number, ...),
  which is neither a number nor a \<^verbatim>\<open>Node\<close> nor a sequence.
\<close>

datatype pyval = Num real | Ref ref | PList "pyval list" | Other

text \<open>
  The exceptions the module can raise.  \<open>DimensionMismatch\<close> is the plain
  \<^verbatim>\<open>Exception("provided value doesn't match the input dimension of f")\<close> and
  \<open>LengthMismatch\<close> is
  \<^verbatim>\<open>Exception("function list length doesn't match value list length")\<close>.
  \<open>RecursionError\<close> is what CPython raises when calls nest deeper than its recursion
  limit.
\<close>

datatype error =
  TypeError | ZeroDivisionError | ValueError | AttributeError | RecursionError
  | OverflowError | DimensionMismatch | LengthMismatch

text \<open>
  A statement that may raise runs on a heap and returns either the exception or its
  value, together with the heap it leaves behind: mutations made before a \<^verbatim>\<open>raise\<close>
  stay.
\<close>

type_synonym 'a result = "(error + 'a) \<times> heap"

definition returns :: "'a \<Rightarrow> heap \<Rightarrow> 'a result" where
  "returns x h = (Inr x, h)"

definition raise :: "error \<Rightarrow> heap \<Rightarrow> 'a result" where
  "raise e h = (Inl e, h)"

definition lift :: "error + 'a \<Rightarrow> heap \<Rightarrow> 'a result" where
  "lift r h = (r, h)"

definition seq :: "(heap \<Rightarrow> 'a result) \<Rightarrow> ('a \<Rightarrow> heap \<Rightarrow> 'b result) \<Rightarrow> heap \<Rightarrow> 'b result" where
  "seq m k h = (case m h of (Inl e, h1) \<Rightarrow> (Inl e, h1) | (Inr x, h1) \<Rightarrow> k x h1)"

subsection \<open>Arithmetic of the host language\<close>

text \<open>\<^verbatim>\<open>a / b\<close> on numbers raises \<^verbatim>\<open>ZeroDivisionError\<close> for a zero divisor.\<close>

definition py_div :: "real \<Rightarrow> real \<Rightarrow> error + real" where
  "py_div a b = (if b = 0 then Inl ZeroDivisionError else Inr (a / b))"

text \<open>
  The power \<open>r\<close> as the float power delivers it, rounding to the nearest double.  The
  largest double is \<open>2 ^ 1024 - 2 ^ 971\<close>: a magnitude of at least
  \<open>2 ^ 1024 - 2 ^ 970\<close>, half a unit in the last place above it, rounds out of the range
  and the power raises \<^verbatim>\<open>OverflowError\<close> (\<^verbatim>\<open>1e160 ** 2\<close>).  The smallest positive
  double is \<open>1 / 2 ^ 1074\<close>: a magnitude of at most half of it is delivered as zero,
  without an exception (\<^verbatim>\<open>1e-200 ** 2 == 0.0\<close>).
\<close>

definition float_power_result :: "real \<Rightarrow> error + pyval" where
  "float_power_result r =
     (if 2 ^ 1024 - 2 ^ 970 \<le> \<bar>r\<bar> then Inl OverflowError
      else if \<bar>r\<bar> \<le> 1 / 2 ^ 1075 then Inr (Num 0)
      else Inr (Num r))"

text \<open>
  \<^verbatim>\<open>a ** b\<close> on numbers: anything to the power zero is one; zero to a negative power
  raises \<^verbatim>\<open>ZeroDivisionError\<close>; a negative base with a non-integral exponent gives a
  complex number, which is not a real number (\<open>Other\<close>); the other powers are subject
  to the range of floats.
\<close>

definition py_pow :: "real \<Rightarrow> real \<Rightarrow> error + pyval" where
  "py_pow a b =
     (if b = 0 then Inr (Num 1)
      else if a = 0 then (if b < 0 then Inl ZeroDivisionError else Inr (Num 0))
      else if 0 < a then float_power_result (a powr b)
      else if b \<in> \<int> then float_power_result (a powi \<lfloor>b\<rfloor>)
      else Inr Other)"

text \<open>\<^verbatim>\<open>math.log(x)\<close> raises \<^verbatim>\<open>ValueError\<close> outside the positive reals.\<close>

definition math_log :: "real \<Rightarrow> error + real" where
  "math_log x = (if x \<le> 0 then Inl ValueError else Inr (ln x))"

text \<open>
  A power used inside an edge weight.  A complex power cannot be stored in the
  real-valued weight of the model; \<^verbatim>\<open>__pow__\<close> and \<^verbatim>\<open>__rpow__\<close> compute a weight
  only after \<^verbatim>\<open>Node(a ** b)\<close> has accepted a power with the same base and an exponent
  that differs by an integer, and the divisions square (the exponent is the integer 2),
  so that case does not arise there (lemma \<open>pow_weight_real\<close> below).
\<close>

definition pow_weight :: "real \<Rightarrow> real \<Rightarrow> error + real" where
  "pow_weight a b =
     (case py_pow a b of
        Inl e \<Rightarrow> Inl e
      | Inr (Num p) \<Rightarrow> Inr p
      | Inr _ \<Rightarrow> Inl TypeError)"

subsection \<open>\<^verbatim>\<open>Node.__init__\<close> and the edge list\<close>

definition Node_init :: "pyval \<Rightarrow> heap \<Rightarrow> ref result" where
  "Node_init v h =
     (case v of
        Num r \<Rightarrow> (Inr (length h), h @ [\<lparr>val = r, children = [], der = None\<rparr>])
      | _ \<Rightarrow> (Inl TypeError, h))"

text \<open>\<^verbatim>\<open>self.children.append((child, partial))\<close>: the heap with the edge appended, and
  the statement that does it.\<close>

definition append_child :: "ref \<Rightarrow> ref \<times> real \<Rightarrow> heap \<Rightarrow> heap" where
  "append_child a e h = h[a := (h ! a)\<lparr>children := children (h ! a) @ [e]\<rparr>]"

definition children_append :: "ref \<Rightarrow> ref \<times> real \<Rightarrow> heap \<Rightarrow> unit result" where
  "children_append a e h = (Inr (), append_child a e h)"

text \<open>Reading \<^verbatim>\<open>self.val\<close>.\<close>

definition get_val :: "ref \<Rightarrow> heap \<Rightarrow> real result" where
  "get_val a h = (Inr (val (h ! a)), h)"

subsection \<open>The arithmetic operators of \<^verbatim>\<open>Node\<close>\<close>

definition Node_add :: "ref \<Rightarrow> pyval \<Rightarrow> heap \<Rightarrow> ref result" where
  "Node_add self other =
     (case other of
        Num c \<Rightarrow>
          seq (get_val self) (\<lambda>a.
          seq (Node_init (Num (a + c))) (\<lambda>new_node.
          seq (children_append self (new_node, 1)) (\<lambda>_.
          returns new_node)))
      | Ref b \<Rightarrow>
          seq (get_val self) (\<lambda>a.
          seq (get_val b) (\<lambda>bv.
          seq (Node_init (Num (a + bv))) (\<lambda>new_node.
          seq (children_append self (new_node, 1)) (\<lambda>_.
          seq (children_append b (new_node, 1)) (\<lambda>_.
          returns new_node)))))
      | _ \<Rightarrow> raise TypeError)"

definition Node_radd :: "ref \<Rightarrow> pyval \<Rightarrow> heap \<Rightarrow> ref result" where
  "Node_radd self other = Node_add self other"

definition Node_mul :: "ref \<Rightarrow> pyval \<Rightarrow> heap \<Rightarrow> ref result" where
  "Node_mul self other =
     (case other of
        Num c \<Rightarrow>
          seq (get_val self) (\<lambda>a.
          seq (Node_init (Num (a * c))) (\<lambda>new_node.
          seq (children_append self (new_node, c)) (\<lambda>_.
          returns new_node)))
      | Ref b \<Rightarrow>
          seq (get_val self) (\<lambda>a.
          seq (get_val b) (\<lambda>bv.
          seq (Node_init (Num (a * bv))) (\<lambda>new_node.
          seq (children_append self (new_node, bv)) (\<lambda>_.
          seq (children_append b (new_node, a)) (\<lambda>_.
          returns new_node)))))
      | _ \<Rightarrow> raise TypeError)"

definition Node_rmul :: "ref \<Rightarrow> pyval \<Rightarrow> heap \<Rightarrow> ref result" where
  "Node_rmul self other = Node_mul self other"

text \<open>
  In \<^verbatim>\<open>__truediv__\<close> and \<^verbatim>\<open>__rtruediv__\<close> the weight \<^verbatim>\<open>- a / (b ** 2)\<close> squares
  with the power operator and then divides: the square can raise \<^verbatim>\<open>OverflowError\<close>,
  and a square delivered as zero makes the division raise \<^verbatim>\<open>ZeroDivisionError\<close>,
  both after the new node and the edges before have been created.
\<close>

definition Node_truediv :: "ref \<Rightarrow> pyval \<Rightarrow> heap \<Rightarrow> ref result" where
  "Node_truediv self other =
     (case other of
        Num c \<Rightarrow>
          seq (get_val self) (\<lambda>a.
          seq (lift (py_div a c)) (\<lambda>q.
          seq (Node_init (Num q)) (\<lambda>new_node.
          seq (lift (py_div 1 c)) (\<lambda>w.
          seq (children_append self (new_node, w)) (\<lambda>_.
          returns new_node)))))
      | Ref b \<Rightarrow>
          seq (get_val self) (\<lambda>a.
          seq (get_val b) (\<lambda>bv.
          seq (lift (py_div a bv)) (\<lambda>q.
          seq (Node_init (Num q)) (\<lambda>new_node.
          seq (lift (py_div 1 bv)) (\<lambda>w.
          seq (children_append self (new_node, w)) (\<lambda>_.
          seq (lift (pow_weight bv 2)) (\<lambda>sq.
          seq (lift (py_div (- a) sq)) (\<lambda>w'.
          seq (children_append b (new_node, w')) (\<lambda>_.
          returns new_node)))))))))
      | _ \<Rightarrow> raise TypeError)"

definition Node_rtruediv :: "ref \<Rightarrow> pyval \<Rightarrow> heap \<Rightarrow> ref result" where
  "Node_rtruediv self other =
     (case other of
        Num c \<Rightarrow>
          seq (get_val self) (\<lambda>a.
          seq (lift (py_div c a)) (\<lambda>q.
          seq (Node_init (Num q)) (\<lambda>new_node.
          seq (lift (pow_weight a 2)) (\<lambda>sq.
          seq (lift (py_div (- c) sq)) (\<lambda>w.
          seq (children_append self (new_node, w)) (\<lambda>_.
          returns new_node))))))
      | _ \<Rightarrow> raise TypeError)"

definition Node_sub :: "ref \<Rightarrow> pyval \<Rightarrow> heap \<Rightarrow> ref result" where
  "Node_sub self other =
     (case other of
        Num c \<Rightarrow>
          seq (get_val self) (\<lambda>a.
          seq (Node_init (Num (a - c))) (\<lambda>new_node.
          seq (children_append self (new_node, 1)) (\<lambda>_.
          returns new_node)))
      | Ref b \<Rightarrow>
          seq (get_val self) (\<lambda>a.
          seq (get_val b) (\<lambda>bv.
          seq (Node_init (Num (a - bv))) (\<lambda>new_node.
          seq (children_append self (new_node, 1)) (\<lambda>_.
          seq (children_append b (new_node, - 1)) (\<lambda>_.
          returns new_node)))))
      | _ \<Rightarrow> raise TypeError)"

definition Node_rsub :: "ref \<Rightarrow> pyval \<Rightarrow> heap \<Rightarrow> ref result" where
  "Node_rsub self other =
     (case other of
        Num c \<Rightarrow>
          seq (get_val self) (\<lambda>a.
          seq (Node_init (Num (c - a))) (\<lambda>new_node.
          seq (children_append self (new_node, - 1)) (\<lambda>_.
          returns new_node)))
      | _ \<Rightarrow> raise TypeError)"

definition Node_pow :: "ref \<Rightarrow> pyval \<Rightarrow> heap \<Rightarrow> ref result" where
  "Node_pow self other =
     (case other of
        Num c \<Rightarrow>
          seq (get_val self) (\<lambda>a.
          seq (lift (py_pow a c)) (\<lambda>p.
          seq (Node_init p) (\<lambda>new_node.
          seq (lift (pow_weight a (c - 1))) (\<lambda>p'.
          seq (children_append self (new_node, c * p')) (\<lambda>_.
          returns new_node)))))
      | Ref b \<Rightarrow>
          seq (get_val self) (\<lambda>a.
          seq (get_val b) (\<lambda>bv.
          seq (lift (py_pow a bv)) (\<lambda>p.
          seq (Node_init p) (\<lambda>new_node.
          seq (lift (pow_weight a (bv - 1))) (\<lambda>p'.
          seq (children_append self (new_node, bv * p')) (\<lambda>_.
          seq (lift (pow_weight a bv)) (\<lambda>p''.
          seq (lift (math_log bv)) (\<lambda>l.
          seq (children_append b (new_node, p'' * l)) (\<lambda>_.
          returns new_node)))))))))
      | _ \<Rightarrow> raise TypeError)"

definition Node_rpow :: "ref \<Rightarrow> pyval \<Rightarrow> heap \<Rightarrow> ref result" where
  "Node_rpow self other =
     (case other of
        Num c \<Rightarrow>
          seq (get_val self) (\<lambda>a.
          seq (lift (py_pow c a)) (\<lambda>p.
          seq (Node_init p) (\<lambda>new_node.
          seq (lift (pow_weight c a)) (\<lambda>p'.
          seq (lift (math_log c)) (\<lambda>l.
          seq (children_append self (new_node, p' * l)) (\<lambda>_.
          returns new_node))))))
      | _ \<Rightarrow> raise TypeError)"

definition Node_neg :: "ref \<Rightarrow> heap \<Rightarrow> ref result" where
  "Node_neg self = Node_mul self (Num (- 1))"

subsection \<open>The comparison operators of \<^verbatim>\<open>Node\<close>\<close>

text \<open>The comparisons read the heap and leave it as it is.\<close>

definition Node_lt :: "ref \<Rightarrow> pyval \<Rightarrow> heap \<Rightarrow> error + bool" where
  "Node_lt self other h =
     (case other of
        Num c \<Rightarrow> Inr (val (h ! self) < c)
      | Ref b \<Rightarrow> Inr (val (h ! self) < val (h ! b))
      | _ \<Rightarrow> Inl TypeError)"

definition Node_gt :: "ref \<Rightarrow> pyval \<Rightarrow> heap \<Rightarrow> error + bool" where
  "Node_gt self other h =
     (case other of
        Num c \<Rightarrow> Inr (val (h ! self) > c)
      | Ref b \<Rightarrow> Inr (val (h ! self) > val (h ! b))
      | _ \<Rightarrow> Inl TypeError)"

definition Node_le :: "ref \<Rightarrow> pyval \<Rightarrow> heap \<Rightarrow> error + bool" where
  "Node_le self other h =
     (case other of
        Num c \<Rightarrow> Inr (val (h ! self) \<le> c)
      | Ref b \<Rightarrow> Inr (val (h ! self) \<le> val (h ! b))
      | _ \<Rightarrow> Inl TypeError)"

definition Node_ge :: "ref \<Rightarrow> pyval \<Rightarrow> heap \<Rightarrow> error + bool" where
  "Node_ge self other h =
     (case other of
        Num c \<Rightarrow> Inr (val (h ! self) \<ge> c)
      | Ref b \<Rightarrow> Inr (val (h ! self) \<ge> val (h ! b))
      | _ \<Rightarrow> Inl TypeError)"

text \<open>
  \<^verbatim>\<open>__eq__\<close> compares the edge lists with the list equality of the host language:
  lists of different length are unequal; otherwise the pairs are compared in order up to
  the first difference, two children being equal when they are the same object or
  \<^verbatim>\<open>__eq__\<close> says so.  The first argument bounds the nesting of the recursive calls
  (the recursion limit of the interpreter); when it is used up the call raises
  \<^verbatim>\<open>RecursionError\<close>.
\<close>

fun Node_eq :: "nat \<Rightarrow> ref \<Rightarrow> pyval \<Rightarrow> heap \<Rightarrow> error + bool"
  and items_eq :: "nat \<Rightarrow> (ref \<times> real) list \<Rightarrow> (ref \<times> real) list \<Rightarrow> heap \<Rightarrow> error + bool"
where
  "Node_eq 0 self other h = Inl RecursionError"
| "Node_eq (Suc d) self other h =
     (case other of
        Ref b \<Rightarrow>
          if val (h ! self) = val (h ! b) then
            if der (h ! self) = der (h ! b) then
              if length (children (h ! self)) \<noteq> length (children (h ! b)) then Inr False
              else items_eq d (children (h ! self)) (children (h ! b)) h
            else Inr False
          else Inr False
      | _ \<Rightarrow> Inr False)"
| "items_eq d ((c1, w1) # xs) ((c2, w2) # ys) h =
     (case (if c1 = c2 then Inr True else Node_eq d c1 (Ref c2) h) of
        Inl e \<Rightarrow> Inl e
      | Inr same \<Rightarrow>
          if same then (if w1 = w2 then items_eq d xs ys h else Inr False)
          else Inr False)"
| "items_eq d xs ys h = Inr True"

definition Node_ne :: "nat \<Rightarrow> ref \<Rightarrow> pyval \<Rightarrow> heap \<Rightarrow> error + bool" where
  "Node_ne d self other h =
     (case Node_eq d self other h of Inl e \<Rightarrow> Inl e | Inr b \<Rightarrow> Inr (\<not> b))"

subsection \<open>The backward pass: \<^verbatim>\<open>Node.get_gradient\<close>\<close>

text \<open>
  \<^verbatim>\<open>get_gradient\<close> calls itself on the children, one after the other, each call on
  the heap the previous one has left (the calls cache derivatives).  The first argument
  bounds the nesting of the calls, as for \<open>Node_eq\<close>.  \<^verbatim>\<open>sum\<close> adds from the left,
  starting at zero.
\<close>

fun get_gradient :: "nat \<Rightarrow> ref \<Rightarrow> heap \<Rightarrow> real result"
  and child_gradients :: "nat \<Rightarrow> (ref \<times> real) list \<Rightarrow> heap \<Rightarrow> real list result"
where
  "get_gradient 0 self h = (Inl RecursionError, h)"
| "get_gradient (Suc d) self h =
     (case der (h ! self) of
        Some g \<Rightarrow> (Inr g, h)
      | None \<Rightarrow>
          (case child_gradients d (children (h ! self)) h of
             (Inl e, h1) \<Rightarrow> (Inl e, h1)
           | (Inr ps, h1) \<Rightarrow>
               (Inr (foldl (+) 0 ps), h1[self := (h1 ! self)\<lparr>der := Some (foldl (+) 0 ps)\<rparr>])))"
| "child_gradients d [] h = (Inr [], h)"
| "child_gradients d ((child, partial) # cs) h =
     (case get_gradient d child h of
        (Inl e, h1) \<Rightarrow> (Inl e, h1)
      | (Inr g, h1) \<Rightarrow>
          (case child_gradients d cs h1 of
             (Inl e, h2) \<Rightarrow> (Inl e, h2)
           | (Inr ps, h2) \<Rightarrow> (Inr (g * partial # ps), h2)))"

subsection \<open>The driver: \<^verbatim>\<open>_AutoDiffR\<close>, \<^verbatim>\<open>AutoDiffR1D\<close> and \<^verbatim>\<open>AutoDiffR\<close>\<close>

fun AutoDiffR_loop :: "nat \<Rightarrow> ref list \<Rightarrow> real list \<Rightarrow> heap \<Rightarrow> real list result" where
  "AutoDiffR_loop d [] result h = (Inr result, h)"
| "AutoDiffR_loop d (var # vars) result h =
     (case get_gradient d var h of
        (Inl e, h1) \<Rightarrow> (Inl e, h1)
      | (Inr var_grad, h1) \<Rightarrow> AutoDiffR_loop d vars (result @ [var_grad]) h1)"

definition Node_AutoDiffR :: "nat \<Rightarrow> ref \<Rightarrow> ref list \<Rightarrow> heap \<Rightarrow> real list result" where
  "Node_AutoDiffR d self variables h =
     AutoDiffR_loop d variables [] (h[self := (h ! self)\<lparr>der := Some 1\<rparr>])"

text \<open>
  A user function as the driver sees it: the parameters of its signature, of whatever
  kind, as \<^verbatim>\<open>inspect.signature(f).parameters\<close> lists them, and what a call
  \<^verbatim>\<open>f(*variables)\<close> on \<^verbatim>\<open>Node\<close> arguments does to the heap and returns.
\<close>

datatype param_kind =
  PositionalOnly | PositionalOrKeyword | VarPositional | KeywordOnly | VarKeyword

record pyfun =
  parameters :: "param_kind list"
  body :: "ref list \<Rightarrow> heap \<Rightarrow> pyval result"

text \<open>The first argument of the driver: a function, or an object with no signature.\<close>

datatype callable = Function pyfun | NotCallable

definition signature :: "callable \<Rightarrow> error + param_kind list" where
  "signature f = (case f of Function g \<Rightarrow> Inr (parameters g) | NotCallable \<Rightarrow> Inl TypeError)"

definition call :: "callable \<Rightarrow> ref list \<Rightarrow> heap \<Rightarrow> pyval result" where
  "call f args = (case f of Function g \<Rightarrow> body g args | NotCallable \<Rightarrow> raise TypeError)"

text \<open>\<^verbatim>\<open>[Node(val[i]) for i in range(dimension)]\<close>, where \<open>dimension\<close> is the length of \<open>val\<close>.\<close>

fun make_variables :: "pyval list \<Rightarrow> heap \<Rightarrow> ref list result" where
  "make_variables [] = returns []"
| "make_variables (v # vs) =
     seq (Node_init v) (\<lambda>n.
     seq (make_variables vs) (\<lambda>ns.
     returns (n # ns)))"

definition AutoDiffR1D :: "nat \<Rightarrow> callable \<Rightarrow> pyval \<Rightarrow> heap \<Rightarrow> real list result" where
  "AutoDiffR1D d f v h =
     (case signature f of
        Inl _ \<Rightarrow> (Inl TypeError, h)
      | Inr ps \<Rightarrow>
          (case v of
             PList vs \<Rightarrow>
               if length ps \<noteq> length vs then (Inl DimensionMismatch, h)
               else
                 seq (make_variables vs) (\<lambda>variables.
                 seq (call f variables) (\<lambda>result.
                 case result of
                   Ref out \<Rightarrow> Node_AutoDiffR d out variables
                 | _ \<Rightarrow> raise AttributeError)) h
           | _ \<Rightarrow> (Inl TypeError, h)))"

text \<open>
  The first argument of \<^verbatim>\<open>AutoDiffR\<close> is a list of functions or a single object; the
  result is a gradient or a list of gradients accordingly.
\<close>

datatype f_arg = FList "callable list" | FSingle callable

datatype gradients = Gradient "real list" | Gradients "real list list"

fun AutoDiffR_zip :: "nat \<Rightarrow> (callable \<times> pyval) list \<Rightarrow> real list list \<Rightarrow> heap \<Rightarrow> real list list result" where
  "AutoDiffR_zip d [] results h = (Inr results, h)"
| "AutoDiffR_zip d ((f, v) # rest) results h =
     (case AutoDiffR1D d f v h of
        (Inl e, h1) \<Rightarrow> (Inl e, h1)
      | (Inr g, h1) \<Rightarrow> AutoDiffR_zip d rest (results @ [g]) h1)"

definition AutoDiffR :: "nat \<Rightarrow> f_arg \<Rightarrow> pyval \<Rightarrow> heap \<Rightarrow> gradients result" where
  "AutoDiffR d f_list val_list h =
     (case f_list of
        FList fs \<Rightarrow>
          (case val_list of
             PList vals \<Rightarrow>
               if length fs \<noteq> length vals then (Inl LengthMismatch, h)
               else
                 (case AutoDiffR_zip d (zip fs vals) [] h of
                    (Inl e, h1) \<Rightarrow> (Inl e, h1)
                  | (Inr results, h1) \<Rightarrow> (Inr (Gradients results), h1))
           | _ \<Rightarrow> (Inl TypeError, h))
      | FSingle f \<Rightarrow>
          (case AutoDiffR1D d f val_list h of
             (Inl e, h1) \<Rightarrow> (Inl e, h1)
           | (Inr g, h1) \<Rightarrow> (Inr (Gradient g), h1)))"

subsection \<open>The user functions of the testable properties\<close>

text \<open>
  \<^verbatim>\<open>lambda x: (x + x) * (x + x)\<close> and \<^verbatim>\<open>lambda x, y: x / y\<close>.  On \<^verbatim>\<open>Node\<close> arguments
  the operators are the methods of \<^verbatim>\<open>Node\<close>, the left operand evaluated first; a call
  with another number of arguments raises \<^verbatim>\<open>TypeError\<close>.
\<close>

definition f_diamond :: pyfun where
  "f_diamond =
     \<lparr>parameters = [PositionalOrKeyword],
      body = (\<lambda>args.
        case args of
          [x] \<Rightarrow>
            seq (Node_add x (Ref x)) (\<lambda>l.
            seq (Node_add x (Ref x)) (\<lambda>r.
            seq (Node_mul l (Ref r)) (\<lambda>n.
            returns (Ref n))))
        | _ \<Rightarrow> raise TypeError)\<rparr>"

definition f_quotient :: pyfun where
  "f_quotient =
     \<lparr>parameters = [PositionalOrKeyword, PositionalOrKeyword],
      body = (\<lambda>args.
        case args of
          [x, y] \<Rightarrow>
            seq (Node_truediv x (Ref y)) (\<lambda>n.
            returns (Ref n))
        | _ \<Rightarrow> raise TypeError)\<rparr>"

text \<open>
  \<^verbatim>\<open>def f(x, *, k=3): return x * k\<close>: one positional parameter and one keyword-only
  parameter with a default value.
\<close>

definition f_keyword_only :: pyfun where
  "f_keyword_only =
     \<lparr>parameters = [PositionalOrKeyword, KeywordOnly],
      body = (\<lambda>args.
        case args of
          [x] \<Rightarrow>
            seq (Node_mul x (Num 3)) (\<lambda>n.
            returns (Ref n))
        | _ \<Rightarrow> raise TypeError)\<rparr>"

section \<open>Notions of the specification\<close>

text \<open>An operand the operators accept: a \<^verbatim>\<open>Node\<close> or a real number.\<close>

definition Node_or_real :: "pyval \<Rightarrow> bool" where
  "Node_or_real v = (case v of Num _ \<Rightarrow> True | Ref _ \<Rightarrow> True | _ \<Rightarrow> False)"

text \<open>
  The square of \<open>x\<close> is in the range of floats: it neither overflows nor is delivered as
  zero.  Such an \<open>x\<close> is nonzero.
\<close>

definition square_in_range :: "real \<Rightarrow> bool" where
  "square_in_range x = (1 / 2 ^ 1075 < x\<^sup>2 \<and> x\<^sup>2 < 2 ^ 1024 - 2 ^ 970)"

text \<open>The number of positional parameters a signature declares.\<close>

definition positional_count :: "param_kind list \<Rightarrow> nat" where
  "positional_count ps =
     length (filter (\<lambda>k. k = PositionalOnly \<or> k = PositionalOrKeyword) ps)"

text \<open>
  The batch result in the words of the specification: the gradient vectors
  \<^verbatim>\<open>evaluate(f_i, point_i)\<close> in order, each evaluation on the heap the previous one has
  left, the first exception ending the batch.
\<close>

fun evaluate_each :: "nat \<Rightarrow> (callable \<times> pyval) list \<Rightarrow> heap \<Rightarrow> real list list result" where
  "evaluate_each d [] h = (Inr [], h)"
| "evaluate_each d ((f, v) # rest) h =
     (case AutoDiffR1D d f v h of
        (Inl e, h1) \<Rightarrow> (Inl e, h1)
      | (Inr g, h1) \<Rightarrow>
          (case evaluate_each d rest h1 of
             (Inl e, h2) \<Rightarrow> (Inl e, h2)
           | (Inr gs, h2) \<Rightarrow> (Inr (g # gs), h2)))"

text \<open>
  Immutability of values: the second heap keeps every node of the first, in place and
  with its value.
\<close>

definition vals_preserved :: "heap \<Rightarrow> heap \<Rightarrow> bool" where
  "vals_preserved h h' = (length h \<le> length h' \<and> (\<forall>i<length h. val (h' ! i) = val (h ! i)))"

text \<open>
  The construction invariant of the graph: every edge of a node points to an allocated
  node created strictly after it.
\<close>

definition forward_edges :: "heap \<Rightarrow> bool" where
  "forward_edges h =
     (\<forall>n<length h. \<forall>e\<in>set (children (h ! n)). n < fst e \<and> fst e < length h)"

text \<open>An operand that is a reference refers to an allocated node.\<close>

definition valid_operand :: "heap \<Rightarrow> pyval \<Rightarrow> bool" where
  "valid_operand h v = (case v of Ref b \<Rightarrow> b < length h | _ \<Rightarrow> True)"

text \<open>
  The heaps a program can reach from the empty heap with the constructor and the
  arithmetic operators of \<^verbatim>\<open>Node\<close> (whether they return or raise), with the seeding
  \<^verbatim>\<open>self.der = 1\<close> of the driver and with the backward pass.
\<close>

inductive reachable :: "heap \<Rightarrow> bool" where
  start: "reachable []"
| init: "reachable h \<Longrightarrow> reachable (snd (Node_init v h))"
| add: "reachable h \<Longrightarrow> a < length h \<Longrightarrow> valid_operand h v \<Longrightarrow> reachable (snd (Node_add a v h))"
| radd: "reachable h \<Longrightarrow> a < length h \<Longrightarrow> valid_operand h v \<Longrightarrow> reachable (snd (Node_radd a v h))"
| mul: "reachable h \<Longrightarrow> a < length h \<Longrightarrow> valid_operand h v \<Longrightarrow> reachable (snd (Node_mul a v h))"
| rmul: "reachable h \<Longrightarrow> a < length h \<Longrightarrow> valid_operand h v \<Longrightarrow> reachable (snd (Node_rmul a v h))"
| truediv: "reachable h \<Longrightarrow> a < length h \<Longrightarrow> valid_operand h v \<Longrightarrow> reachable (snd (Node_truediv a v h))"
| rtruediv: "reachable h \<Longrightarrow> a < length h \<Longrightarrow> valid_operand h v \<Longrightarrow> reachable (snd (Node_rtruediv a v h))"
| sub: "reachable h \<Longrightarrow> a < length h \<Longrightarrow> valid_operand h v \<Longrightarrow> reachable (snd (Node_sub a v h))"
| rsub: "reachable h \<Longrightarrow> a < length h \<Longrightarrow> valid_operand h v \<Longrightarrow> reachable (snd (Node_rsub a v h))"
| pow: "reachable h \<Longrightarrow> a < length h \<Longrightarrow> valid_operand h v \<Longrightarrow> reachable (snd (Node_pow a v h))"
| rpow: "reachable h \<Longrightarrow> a < length h \<Longrightarrow> valid_operand h v \<Longrightarrow> reachable (snd (Node_rpow a v h))"
| neg: "reachable h \<Longrightarrow> a < length h \<Longrightarrow> reachable (snd (Node_neg a h))"
| seed: "reachable h \<Longrightarrow> a < length h \<Longrightarrow> reachable (h[a := (h ! a)\<lparr>der := Some 1\<rparr>])"
| backward: "reachable h \<Longrightarrow> a < length h \<Longrightarrow> reachable (snd (get_gradient d a h))"

text \<open>
  The gradient of a node in the words of the specification: the cached derivative if it
  is set, otherwise the sum over the edges \<open>(successor, weight)\<close> of the gradient of the
  successor times the weight.  The recursion follows forward edges only, which are all
  the edges of a heap with \<open>forward_edges\<close>.
\<close>

function gradient_of :: "heap \<Rightarrow> ref \<Rightarrow> real" where
  "gradient_of h n =
     (case der (h ! n) of
        Some g \<Rightarrow> g
      | None \<Rightarrow>
          sum_list (map (\<lambda>e. if n < fst e \<and> fst e < length h then gradient_of h (fst e) * snd e else 0)
                     (children (h ! n))))"
  by pat_completeness auto
termination
  by (relation "measure (\<lambda>(h, n). length h - n)") auto

declare gradient_of.simps [simp del]

subsection \<open>Relations between heaps used in the proofs\<close>

text \<open>The heap \<open>h'\<close> extends \<open>h\<close> by new nodes without edges and by edges to new nodes.\<close>

definition extends :: "heap \<Rightarrow> heap \<Rightarrow> bool" where
  "extends h h' =
     (length h \<le> length h'
      \<and> (\<forall>i<length h. val (h' ! i) = val (h ! i) \<and> der (h' ! i) = der (h ! i)
            \<and> set (children (h' ! i)) \<subseteq>
                set (children (h ! i)) \<union> {e. length h \<le> fst e \<and> fst e < length h'})
      \<and> (\<forall>i. length h \<le> i \<and> i < length h' \<longrightarrow> children (h' ! i) = []))"

text \<open>The heap \<open>h'\<close> is \<open>h\<close> with the gradients of some more nodes cached.\<close>

definition cached :: "heap \<Rightarrow> heap \<Rightarrow> bool" where
  "cached h h' =
     (length h' = length h
      \<and> (\<forall>m<length h. val (h' ! m) = val (h ! m) \<and> children (h' ! m) = children (h ! m)
            \<and> (der (h' ! m) = der (h ! m)
                 \<or> der (h ! m) = None \<and> der (h' ! m) = Some (gradient_of h m))))"

section \<open>Evaluation lemmas\<close>

lemmas step_defs =
  seq_def returns_def raise_def lift_def get_val_def children_append_def Node_init_def

lemmas monad_defs = step_defs append_child_def

text \<open>
  The complex case of \<open>pow_weight\<close> is not reached by \<^verbatim>\<open>__pow__\<close>: once
  \<^verbatim>\<open>Node(a ** b)\<close> has accepted the power, \<^verbatim>\<open>a ** (b - 1)\<close> is real too.
\<close>

lemma float_power_result_not_Other [simp]: "float_power_result r \<noteq> Inr Other"
  by (simp add: float_power_result_def)

lemma pow_weight_real:
  assumes "py_pow a b = Inr (Num p)"
  shows "py_pow a (b - 1) \<noteq> Inr Other"
proof (cases "b = 0")
  case True
  then show ?thesis by (simp add: py_pow_def)
next
  case False
  with assms have "0 \<le> a \<or> b \<in> \<int>"
    by (auto simp: py_pow_def split: if_splits)
  then show ?thesis
    by (auto simp: py_pow_def)
qed

text \<open>The square of a number whose square is in the range of floats.\<close>

lemma square_in_range_nonzero: "square_in_range x \<Longrightarrow> x \<noteq> 0"
  by (auto simp: square_in_range_def)

lemma pow_weight_square:
  assumes "square_in_range x"
  shows "pow_weight x 2 = Inr (x\<^sup>2)"
proof -
  from assms have r: "\<not> 2 ^ 1024 - 2 ^ 970 \<le> \<bar>x\<^sup>2\<bar>" "\<not> \<bar>x\<^sup>2\<bar> \<le> 1 / 2 ^ 1075"
    by (simp_all add: square_in_range_def)
  have f: "float_power_result (x\<^sup>2) = Inr (Num (x\<^sup>2))"
    unfolding float_power_result_def using r by (simp only: if_False)
  from assms have "x \<noteq> 0" by (rule square_in_range_nonzero)
  then consider "0 < x" | "x < 0" by linarith
  then show ?thesis
  proof cases
    case 1
    then have "x powr 2 = x\<^sup>2" by simp
    with 1 f show ?thesis by (simp add: pow_weight_def py_pow_def)
  next
    case 2
    have "x powi \<lfloor>2::real\<rfloor> = x\<^sup>2" by simp
    with 2 f show ?thesis by (simp add: pow_weight_def py_pow_def)
  qed
qed

lemma pow_weight_no_mismatch [simp]: "pow_weight a b \<noteq> Inl DimensionMismatch"
  by (simp add: pow_weight_def py_pow_def float_power_result_def split: sum.splits pyval.splits)

text \<open>The backward pass raises nothing but \<^verbatim>\<open>RecursionError\<close>, the construction of the
  input nodes nothing but \<^verbatim>\<open>TypeError\<close>.\<close>

lemma get_gradient_error:
  "get_gradient d n h = (Inl e, h') \<Longrightarrow> e = RecursionError"
  "child_gradients d cs h = (Inl e, h') \<Longrightarrow> e = RecursionError"
  by (induction d n h and d cs h arbitrary: h' and h' rule: get_gradient_child_gradients.induct)
     (auto split: option.splits prod.splits sum.splits)

lemma AutoDiffR_loop_error:
  "AutoDiffR_loop d vars acc h = (Inl e, h') \<Longrightarrow> e = RecursionError"
  by (induction d vars acc h rule: AutoDiffR_loop.induct)
     (auto split: prod.splits sum.splits dest: get_gradient_error(1))

lemma make_variables_error:
  "make_variables vs h = (Inl e, h') \<Longrightarrow> e = TypeError"
  by (induction vs arbitrary: h h')
     (auto simp: monad_defs split: prod.splits sum.splits pyval.splits)

lemma f_quotient_no_mismatch:
  "fst (body f_quotient args h0) \<noteq> Inl DimensionMismatch"
  by (auto simp: f_quotient_def Node_truediv_def monad_defs py_div_def
      split: list.splits sum.splits)

section \<open>The backward pass against the gradient of the specification\<close>

lemma foldl_plus_sum_list: "foldl (+) a xs = a + sum_list (xs :: real list)"
  by (induction xs arbitrary: a) (simp_all add: add.assoc)

lemma gradient_of_forward:
  assumes "forward_edges h" and "n < length h" and "der (h ! n) = None"
  shows "gradient_of h n = sum_list (map (\<lambda>e. gradient_of h (fst e) * snd e) (children (h ! n)))"
proof -
  have "\<forall>e\<in>set (children (h ! n)). n < fst e \<and> fst e < length h"
    using assms(1,2) by (simp add: forward_edges_def)
  then have eq: "map (\<lambda>e. if n < fst e \<and> fst e < length h then gradient_of h (fst e) * snd e else 0)
                (children (h ! n))
           = map (\<lambda>e. gradient_of h (fst e) * snd e) (children (h ! n))"
    by (intro map_cong) auto
  show ?thesis
    unfolding gradient_of.simps [of h n] assms(3) eq by simp
qed

lemma cached_refl: "cached h h"
  by (simp add: cached_def)

lemma cached_forward_edges:
  assumes "cached h h'" and "forward_edges h"
  shows "forward_edges h'"
  using assms by (simp add: cached_def forward_edges_def)

lemma gradient_of_cached:
  assumes "cached h h'"
  shows "m < length h \<Longrightarrow> gradient_of h' m = gradient_of h m"
proof (induction "length h - m" arbitrary: m rule: less_induct)
  case less
  from assms less.prems have len: "length h' = length h"
    and ch: "children (h' ! m) = children (h ! m)"
    and dr: "der (h' ! m) = der (h ! m) \<or> der (h ! m) = None \<and> der (h' ! m) = Some (gradient_of h m)"
    by (simp_all add: cached_def)
  show ?case
  proof (cases "der (h' ! m)")
    case (Some g)
    with dr show ?thesis
      by (cases "der (h ! m)") (auto simp: gradient_of.simps [of h' m] gradient_of.simps [of h m])
  next
    case None
    with dr have none: "der (h ! m) = None" by auto
    have eq: "map (\<lambda>e. if m < fst e \<and> fst e < length h' then gradient_of h' (fst e) * snd e else 0)
                (children (h' ! m))
        = map (\<lambda>e. if m < fst e \<and> fst e < length h then gradient_of h (fst e) * snd e else 0)
                (children (h ! m))"
      unfolding ch len
    proof (intro map_cong refl)
      fix e assume "e \<in> set (children (h ! m))"
      show "(if m < fst e \<and> fst e < length h then gradient_of h' (fst e) * snd e else 0)
          = (if m < fst e \<and> fst e < length h then gradient_of h (fst e) * snd e else 0)"
      proof (cases "m < fst e \<and> fst e < length h")
        case True
        then have "length h - fst e < length h - m" by arith
        from less.hyps [OF this] True show ?thesis by simp
      next
        case False
        then show ?thesis by (simp only: if_False)
      qed
    qed
    show ?thesis
      unfolding gradient_of.simps [of h' m] gradient_of.simps [of h m] None none eq by simp
  qed
qed

lemma cached_trans:
  assumes "cached h h1" and "cached h1 h2"
  shows "cached h h2"
  unfolding cached_def
proof (intro conjI allI impI)
  show "length h2 = length h" using assms by (simp add: cached_def)
next
  fix m assume m: "m < length h"
  then have m1: "m < length h1" using assms(1) by (simp add: cached_def)
  show "val (h2 ! m) = val (h ! m)" using assms m m1 by (simp add: cached_def)
  show "children (h2 ! m) = children (h ! m)" using assms m m1 by (simp add: cached_def)
  have g: "gradient_of h1 m = gradient_of h m" using gradient_of_cached [OF assms(1) m] .
  from assms(1) m have a: "der (h1 ! m) = der (h ! m) \<or> der (h ! m) = None \<and> der (h1 ! m) = Some (gradient_of h m)"
    by (simp add: cached_def)
  from assms(2) m1 have b: "der (h2 ! m) = der (h1 ! m) \<or> der (h1 ! m) = None \<and> der (h2 ! m) = Some (gradient_of h1 m)"
    by (simp add: cached_def)
  from a b g show "der (h2 ! m) = der (h ! m) \<or> der (h ! m) = None \<and> der (h2 ! m) = Some (gradient_of h m)"
    by auto
qed

lemma cached_store:
  assumes "cached h h1" and "n < length h" and "der (h ! n) = None"
  shows "cached h (h1[n := (h1 ! n)\<lparr>der := Some (gradient_of h n)\<rparr>])"
  using assms by (auto simp: cached_def nth_list_update)


lemma get_gradient_correct:
  "forward_edges h \<Longrightarrow> n < length h \<Longrightarrow> length h - n \<le> d \<Longrightarrow>
     \<exists>h'. get_gradient d n h = (Inr (gradient_of h n), h') \<and> cached h h'
          \<and> der (h' ! n) = Some (gradient_of h n)"
  "forward_edges h \<Longrightarrow> \<forall>e\<in>set cs. fst e < length h \<and> length h - fst e \<le> d \<Longrightarrow>
     \<exists>h'. child_gradients d cs h = (Inr (map (\<lambda>e. gradient_of h (fst e) * snd e) cs), h')
          \<and> cached h h'"
proof (induction d n h and d cs h rule: get_gradient_child_gradients.induct)
  case (1 self h)
  then show ?case by simp
next
  case (2 d self h)
  show ?case
  proof (cases "der (h ! self)")
    case (Some g)
    then show ?thesis
      by (simp add: gradient_of.simps [of h self] cached_refl)
  next
    case None
    have "\<forall>e\<in>set (children (h ! self)). fst e < length h \<and> length h - fst e \<le> d"
    proof
      fix e assume "e \<in> set (children (h ! self))"
      with \<open>forward_edges h\<close> \<open>self < length h\<close> have "self < fst e" "fst e < length h"
        by (auto simp: forward_edges_def)
      with \<open>length h - self \<le> Suc d\<close> show "fst e < length h \<and> length h - fst e \<le> d"
        by arith
    qed
    from "2.IH" [OF None \<open>forward_edges h\<close> this]
    obtain h1 where cg: "child_gradients d (children (h ! self)) h
        = (Inr (map (\<lambda>e. gradient_of h (fst e) * snd e) (children (h ! self))), h1)"
      and c1: "cached h h1" by blast
    have g: "foldl (+) 0 (map (\<lambda>e. gradient_of h (fst e) * snd e) (children (h ! self)))
        = gradient_of h self"
      using gradient_of_forward [OF \<open>forward_edges h\<close> \<open>self < length h\<close> None]
      by (simp add: foldl_plus_sum_list)
    have len: "length h1 = length h" using c1 by (simp add: cached_def)
    show ?thesis
      using None cg g cached_store [OF c1 \<open>self < length h\<close> None] \<open>self < length h\<close> len
      by simp
  qed
next
  case (3 d h)
  then show ?case by (simp add: cached_refl)
next
  case (4 d child partial cs h)
  from "4.prems" have ch: "child < length h" "length h - child \<le> d"
    and rest: "\<forall>e\<in>set cs. fst e < length h \<and> length h - fst e \<le> d"
    by auto
  from "4.IH"(1) [OF \<open>forward_edges h\<close> ch]
  obtain h1 where gg: "get_gradient d child h = (Inr (gradient_of h child), h1)"
    and c1: "cached h h1" by blast
  have f1: "forward_edges h1" using cached_forward_edges [OF c1 \<open>forward_edges h\<close>] .
  have len: "length h1 = length h" using c1 by (simp add: cached_def)
  from rest len have rest1: "\<forall>e\<in>set cs. fst e < length h1 \<and> length h1 - fst e \<le> d"
    by simp
  from "4.IH"(2) [OF gg [symmetric] refl f1 rest1]
  obtain h2 where cg: "child_gradients d cs h1
        = (Inr (map (\<lambda>e. gradient_of h1 (fst e) * snd e) cs), h2)"
    and c2: "cached h1 h2" by blast
  have "map (\<lambda>e. gradient_of h1 (fst e) * snd e) cs = map (\<lambda>e. gradient_of h (fst e) * snd e) cs"
    using rest gradient_of_cached [OF c1] by (intro map_cong) auto
  with gg cg cached_trans [OF c1 c2] show ?case by simp
qed

section \<open>Invariants of the operators\<close>

text \<open>Every operator extends the heap, whether it returns or raises.\<close>

lemma length_append_child [simp]: "length (append_child a e h) = length h"
  by (simp add: append_child_def)

lemma extends_refl: "extends h h"
  by (auto simp: extends_def)

lemma extends_fresh: "extends h (h @ [\<lparr>val = v, children = [], der = None\<rparr>])"
  by (auto simp: extends_def nth_append)

lemma extends_append_child:
  assumes "extends h0 h" and "a < length h0" and "length h0 \<le> n" and "n < length h"
  shows "extends h0 (append_child a (n, w) h)"
  using assms
  by (auto simp: extends_def append_child_def nth_list_update)

lemmas extends_intros = extends_append_child extends_fresh extends_refl

lemma extends_forward_edges:
  assumes "extends h h'" and "forward_edges h"
  shows "forward_edges h'"
  unfolding forward_edges_def
proof (intro allI impI ballI)
  fix n e assume n: "n < length h'" and e: "e \<in> set (children (h' ! n))"
  show "n < fst e \<and> fst e < length h'"
  proof (cases "n < length h")
    case True
    with assms(1) e have "e \<in> set (children (h ! n)) \<or> length h \<le> fst e \<and> fst e < length h'"
      by (auto simp: extends_def)
    moreover have "length h \<le> length h'" using assms(1) by (simp add: extends_def)
    moreover have "e \<in> set (children (h ! n)) \<Longrightarrow> n < fst e \<and> fst e < length h"
      using assms(2) True by (simp add: forward_edges_def)
    ultimately show ?thesis using True by auto
  next
    case False
    with assms(1) n have "children (h' ! n) = []" by (simp add: extends_def)
    with e show ?thesis by simp
  qed
qed

lemma extends_Node_init: "extends h (snd (Node_init v h))"
  by (cases v) (simp_all add: Node_init_def extends_intros)

lemma extends_Node_add:
  "a < length h \<Longrightarrow> valid_operand h v \<Longrightarrow> extends h (snd (Node_add a v h))"
  by (cases v) (auto simp: Node_add_def step_defs valid_operand_def intro!: extends_intros)

lemma extends_Node_mul:
  "a < length h \<Longrightarrow> valid_operand h v \<Longrightarrow> extends h (snd (Node_mul a v h))"
  by (cases v) (auto simp: Node_mul_def step_defs valid_operand_def intro!: extends_intros)

lemma extends_Node_sub:
  "a < length h \<Longrightarrow> valid_operand h v \<Longrightarrow> extends h (snd (Node_sub a v h))"
  by (cases v) (auto simp: Node_sub_def step_defs valid_operand_def intro!: extends_intros)

lemma extends_Node_rsub:
  "a < length h \<Longrightarrow> extends h (snd (Node_rsub a v h))"
  by (cases v) (auto simp: Node_rsub_def step_defs intro!: extends_intros)

lemma extends_Node_truediv:
  "a < length h \<Longrightarrow> valid_operand h v \<Longrightarrow> extends h (snd (Node_truediv a v h))"
  by (cases v)
     (auto simp: Node_truediv_def step_defs valid_operand_def py_div_def
           split: sum.splits intro!: extends_intros)

lemma extends_Node_rtruediv:
  "a < length h \<Longrightarrow> extends h (snd (Node_rtruediv a v h))"
  by (cases v)
     (auto simp: Node_rtruediv_def step_defs py_div_def split: sum.splits intro!: extends_intros)

lemma extends_Node_pow:
  "a < length h \<Longrightarrow> valid_operand h v \<Longrightarrow> extends h (snd (Node_pow a v h))"
  by (cases v)
     (auto simp: Node_pow_def step_defs valid_operand_def
           split: sum.splits pyval.splits intro!: extends_intros)

lemma extends_Node_rpow:
  "a < length h \<Longrightarrow> extends h (snd (Node_rpow a v h))"
  by (cases v)
     (auto simp: Node_rpow_def step_defs split: sum.splits pyval.splits intro!: extends_intros)

text \<open>The backward pass changes cached derivatives only.\<close>

lemma map_children_der_update [simp]:
  "map children (h[n := (h ! n)\<lparr>der := x\<rparr>]) = map children h"
  by (cases "n < length h") (auto simp: list_eq_iff_nth_eq nth_list_update)

lemma map_val_der_update [simp]:
  "map val (h[n := (h ! n)\<lparr>der := x\<rparr>]) = map val h"
  by (cases "n < length h") (auto simp: list_eq_iff_nth_eq nth_list_update)

lemma get_gradient_graph:
  "map children (snd (get_gradient d n h)) = map children h
     \<and> map val (snd (get_gradient d n h)) = map val h"
  "map children (snd (child_gradients d cs h)) = map children h
     \<and> map val (snd (child_gradients d cs h)) = map val h"
  by (induction d n h and d cs h rule: get_gradient_child_gradients.induct)
     (auto split: option.splits prod.splits sum.splits)

lemma forward_edges_cong:
  assumes "map children h' = map children h"
  shows "forward_edges h' = forward_edges h"
proof -
  have len: "length h' = length h" using assms by (metis length_map)
  have "children (h' ! n) = children (h ! n)" if "n < length h" for n
    using assms that len by (metis nth_map)
  with len show ?thesis by (simp add: forward_edges_def)
qed

lemma reachable_forward_edges:
  "reachable h \<Longrightarrow> forward_edges h"
proof (induction rule: reachable.induct)
  case start
  show ?case by (simp add: forward_edges_def)
next
  case (seed h a)
  then show ?case using forward_edges_cong [OF map_children_der_update] by simp
next
  case (backward h a d)
  then show ?case using forward_edges_cong [of "snd (get_gradient d a h)" h] get_gradient_graph(1) by simp
next
  case (init h v)
  then show ?case using extends_forward_edges [OF extends_Node_init] by blast
next
  case (add h a v)
  then show ?case using extends_forward_edges [OF extends_Node_add] by blast
next
  case (radd h a v)
  then show ?case using extends_forward_edges [OF extends_Node_add] by (simp add: Node_radd_def)
next
  case (mul h a v)
  then show ?case using extends_forward_edges [OF extends_Node_mul] by blast
next
  case (rmul h a v)
  then show ?case using extends_forward_edges [OF extends_Node_mul] by (simp add: Node_rmul_def)
next
  case (truediv h a v)
  then show ?case using extends_forward_edges [OF extends_Node_truediv] by blast
next
  case (rtruediv h a v)
  then show ?case using extends_forward_edges [OF extends_Node_rtruediv] by blast
next
  case (sub h a v)
  then show ?case using extends_forward_edges [OF extends_Node_sub] by blast
next
  case (rsub h a v)
  then show ?case using extends_forward_edges [OF extends_Node_rsub] by blast
next
  case (pow h a v)
  then show ?case using extends_forward_edges [OF extends_Node_pow] by blast
next
  case (rpow h a v)
  then show ?case using extends_forward_edges [OF extends_Node_rpow] by blast
next
  case (neg h a)
  have "valid_operand h (Num (- 1))" by (simp add: valid_operand_def)
  with neg show ?case
    using extends_forward_edges [OF extends_Node_mul] by (simp add: Node_neg_def)
qed

text \<open>Values are kept by every statement of the model.\<close>

lemma vp_refl: "vals_preserved h h"
  by (simp add: vals_preserved_def)

lemma vp_trans: "vals_preserved h h1 \<Longrightarrow> vals_preserved h1 h2 \<Longrightarrow> vals_preserved h h2"
  by (auto simp: vals_preserved_def)

lemma vp_map_val: "map val h' = map val h \<Longrightarrow> vals_preserved h h'"
  unfolding vals_preserved_def by (metis length_map nth_map order_refl)

lemma vp_seq:
  assumes "\<And>h. vals_preserved h (snd (m h))" and "\<And>x h. vals_preserved h (snd (k x h))"
  shows "vals_preserved h (snd (seq m k h))"
proof (cases "m h")
  case (Pair r h1)
  with assms(1) [of h] have 1: "vals_preserved h h1" by simp
  show ?thesis
  proof (cases r)
    case (Inl e)
    with Pair 1 show ?thesis by (simp add: seq_def)
  next
    case (Inr x)
    with Pair have "seq m k h = k x h1" by (simp add: seq_def)
    with vp_trans [OF 1 assms(2) [of h1 x]] show ?thesis by simp
  qed
qed

lemma vp_returns: "vals_preserved h (snd (returns x h))"
  by (simp add: returns_def vp_refl)

lemma vp_raise: "vals_preserved h (snd (raise e h))"
  by (simp add: raise_def vp_refl)

lemma vp_lift: "vals_preserved h (snd (lift r h))"
  by (simp add: lift_def vp_refl)

lemma vp_get_val: "vals_preserved h (snd (get_val a h))"
  by (simp add: get_val_def vp_refl)

lemma vp_Node_init: "vals_preserved h (snd (Node_init v h))"
  by (cases v) (simp_all add: Node_init_def vals_preserved_def nth_append)

lemma map_val_append_child: "map val (append_child a e h) = map val h"
  by (cases "a < length h") (auto simp: append_child_def list_eq_iff_nth_eq nth_list_update)

lemma vp_children_append: "vals_preserved h (snd (children_append a e h))"
  by (simp add: children_append_def vp_map_val map_val_append_child)

lemmas vp_intros =
  vp_seq vp_returns vp_raise vp_lift vp_get_val vp_Node_init vp_children_append

lemma vp_Node_add: "vals_preserved h (snd (Node_add a v h))"
  by (cases v) (simp_all add: Node_add_def vp_intros)

lemma vp_Node_mul: "vals_preserved h (snd (Node_mul a v h))"
  by (cases v) (simp_all add: Node_mul_def vp_intros)

lemma vp_Node_sub: "vals_preserved h (snd (Node_sub a v h))"
  by (cases v) (simp_all add: Node_sub_def vp_intros)

lemma vp_Node_rsub: "vals_preserved h (snd (Node_rsub a v h))"
  by (cases v) (simp_all add: Node_rsub_def vp_intros)

lemma vp_Node_truediv: "vals_preserved h (snd (Node_truediv a v h))"
  by (cases v) (simp_all add: Node_truediv_def vp_intros)

lemma vp_Node_rtruediv: "vals_preserved h (snd (Node_rtruediv a v h))"
  by (cases v) (simp_all add: Node_rtruediv_def vp_intros)

lemma vp_Node_pow: "vals_preserved h (snd (Node_pow a v h))"
  by (cases v) (simp_all add: Node_pow_def vp_intros)

lemma vp_Node_rpow: "vals_preserved h (snd (Node_rpow a v h))"
  by (cases v) (simp_all add: Node_rpow_def vp_intros)

lemma vp_get_gradient: "vals_preserved h (snd (get_gradient d n h))"
  by (rule vp_map_val) (simp add: get_gradient_graph)

lemma vp_AutoDiffR_loop: "vals_preserved h (snd (AutoDiffR_loop d vars acc h))"
proof (induction d vars acc h rule: AutoDiffR_loop.induct)
  case (1 d result h)
  show ?case by (simp add: vp_refl)
next
  case (2 d var vars result h)
  obtain r h1 where g: "get_gradient d var h = (r, h1)" by (cases "get_gradient d var h")
  with vp_get_gradient [of h d var] have 1: "vals_preserved h h1" by simp
  show ?case
  proof (cases r)
    case (Inl e)
    with g 1 show ?thesis by simp
  next
    case (Inr x)
    from "2.IH" [OF g [symmetric] Inr]
    have "vals_preserved h1 (snd (AutoDiffR_loop d vars (result @ [x]) h1))" .
    with 1 have "vals_preserved h (snd (AutoDiffR_loop d vars (result @ [x]) h1))"
      by (rule vp_trans)
    with g Inr show ?thesis by simp
  qed
qed

lemma vp_Node_AutoDiffR: "vals_preserved h (snd (Node_AutoDiffR d self vars h))"
  unfolding Node_AutoDiffR_def
  by (rule vp_trans [OF vp_map_val vp_AutoDiffR_loop]) simp

lemma vp_make_variables: "vals_preserved h (snd (make_variables vs h))"
  by (induction vs arbitrary: h) (simp_all add: vp_intros)

lemma vp_AutoDiffR1D:
  assumes "\<And>args h0. vals_preserved h0 (snd (call f args h0))"
  shows "vals_preserved h (snd (AutoDiffR1D d f p h))"
proof -
  have *: "vals_preserved h (snd ((case result of Ref out \<Rightarrow> Node_AutoDiffR d out variables
                                   | _ \<Rightarrow> raise AttributeError) h))" for result variables h
    by (cases result) (simp_all add: vp_Node_AutoDiffR vp_raise)
  show ?thesis
    unfolding AutoDiffR1D_def
    by (auto split: sum.splits pyval.splits simp: vp_refl intro!: vp_seq vp_make_variables assms *)
qed

lemma vp_AutoDiffR_zip:
  assumes "\<And>f args h0. f \<in> fst ` set xs \<Longrightarrow> vals_preserved h0 (snd (call f args h0))"
  shows "vals_preserved h (snd (AutoDiffR_zip d xs acc h))"
  using assms
proof (induction xs arbitrary: acc h)
  case Nil
  show ?case by (simp add: vp_refl)
next
  case (Cons x xs)
  obtain f v where x: "x = (f, v)" by (cases x)
  obtain r h1 where g: "AutoDiffR1D d f v h = (r, h1)" by (cases "AutoDiffR1D d f v h")
  have "vals_preserved h (snd (AutoDiffR1D d f v h))"
    by (rule vp_AutoDiffR1D) (simp add: Cons.prems x)
  with g have 1: "vals_preserved h h1" by simp
  show ?case
  proof (cases r)
    case (Inl e)
    with g 1 x show ?thesis by simp
  next
    case (Inr gr)
    have "vals_preserved h1 (snd (AutoDiffR_zip d xs (acc @ [gr]) h1))"
      by (rule Cons.IH) (simp add: Cons.prems)
    with 1 have "vals_preserved h (snd (AutoDiffR_zip d xs (acc @ [gr]) h1))" by (rule vp_trans)
    with g Inr x show ?thesis by simp
  qed
qed

lemma vp_AutoDiffR_FList:
  assumes "\<forall>f\<in>set fs. \<forall>args h0. vals_preserved h0 (snd (call f args h0))"
  shows "vals_preserved h (snd (AutoDiffR d (FList fs) p h))"
proof (cases p)
  case (PList vals)
  have "vals_preserved h (snd (AutoDiffR_zip d (zip fs vals) [] h))"
    by (rule vp_AutoDiffR_zip) (use assms in \<open>auto dest: set_zip_leftD\<close>)
  then show ?thesis using PList
    by (auto simp: AutoDiffR_def vp_refl split: prod.splits sum.splits)
qed (simp_all add: AutoDiffR_def vp_refl)

lemma vp_f_diamond: "vals_preserved h0 (snd (call (Function f_diamond) args h0))"
proof -
  have "vals_preserved h0 (snd (seq (Node_add x (Ref x)) (\<lambda>l.
            seq (Node_add x (Ref x)) (\<lambda>r.
            seq (Node_mul l (Ref r)) (\<lambda>n.
            returns (Ref n)))) h0))" for x
    by (intro vp_seq vp_returns vp_Node_add vp_Node_mul)
  then show ?thesis
    by (simp add: call_def f_diamond_def vp_raise split: list.splits)
qed

text \<open>The loop of \<^verbatim>\<open>AutoDiffR\<close> against the batch of the specification.\<close>

lemma AutoDiffR_zip_evaluate_each:
  "AutoDiffR_zip d xs acc h =
     (case evaluate_each d xs h of
        (Inl e, h') \<Rightarrow> (Inl e, h')
      | (Inr gs, h') \<Rightarrow> (Inr (acc @ gs), h'))"
  by (induction d xs acc h rule: AutoDiffR_zip.induct)
     (auto split: prod.splits sum.splits)

lemma evaluate_each_elementwise:
  "evaluate_each d xs h = (Inr gs, h') \<Longrightarrow>
     length gs = length xs
     \<and> (\<exists>hs. length hs = Suc (length xs) \<and> hs ! 0 = h \<and> hs ! length xs = h'
           \<and> (\<forall>i<length xs. AutoDiffR1D d (fst (xs ! i)) (snd (xs ! i)) (hs ! i)
                                = (Inr (gs ! i), hs ! Suc i)))"
proof (induction xs arbitrary: h gs)
  case Nil
  then show ?case by (auto intro: exI [of _ "[h]"])
next
  case (Cons x xs)
  obtain f v where x: "x = (f, v)" by (cases x)
  from Cons.prems x obtain g h1 gs' where
    1: "AutoDiffR1D d f v h = (Inr g, h1)" and 2: "evaluate_each d xs h1 = (Inr gs', h')"
    and gs: "gs = g # gs'"
    by (auto split: prod.splits sum.splits)
  from Cons.IH [OF 2] obtain hs where len: "length gs' = length xs"
    and hs: "length hs = Suc (length xs)" "hs ! 0 = h1" "hs ! length xs = h'"
    and el: "\<forall>i<length xs. AutoDiffR1D d (fst (xs ! i)) (snd (xs ! i)) (hs ! i)
                                = (Inr (gs' ! i), hs ! Suc i)"
    by blast
  have el': "\<forall>i<length (x # xs). AutoDiffR1D d (fst ((x # xs) ! i)) (snd ((x # xs) ! i)) ((h # hs) ! i)
                                = (Inr (gs ! i), (h # hs) ! Suc i)"
  proof (intro allI impI)
    fix i assume "i < length (x # xs)"
    then show "AutoDiffR1D d (fst ((x # xs) ! i)) (snd ((x # xs) ! i)) ((h # hs) ! i)
                                = (Inr (gs ! i), (h # hs) ! Suc i)"
      using 1 x gs hs el by (cases i) auto
  qed
  have hd: "length (h # hs) = Suc (length (x # xs))" "(h # hs) ! 0 = h"
    "(h # hs) ! length (x # xs) = h'"
    using hs by simp_all
  have "length gs = length (x # xs)" using len gs by simp
  moreover have "\<exists>hs'. length hs' = Suc (length (x # xs)) \<and> hs' ! 0 = h
      \<and> hs' ! length (x # xs) = h'
      \<and> (\<forall>i<length (x # xs). AutoDiffR1D d (fst ((x # xs) ! i)) (snd ((x # xs) ! i)) (hs' ! i)
                                = (Inr (gs ! i), hs' ! Suc i))"
    by (rule exI [of _ "h # hs"]) (intro conjI hd el')
  ultimately show ?case by (rule conjI)
qed

section \<open>The construction of a node\<close>

text \<open>
  Claim C10.  \<^verbatim>\<open>Node(val)\<close> succeeds for every number, and the new node, placed after
  all existing ones, has the given value, an empty edge list and no derivative; for a
  value that is not a number (a \<^verbatim>\<open>Node\<close>, a list, any other object) it raises
  \<^verbatim>\<open>TypeError\<close> and leaves the heap as it was.
\<close>

theorem Node_init_cases:
  "Node_init (Num r) h = (Inr (length h), h @ [\<lparr>val = r, children = [], der = None\<rparr>])
   \<and> Node_init (Ref n) h = (Inl TypeError, h)
   \<and> Node_init (PList vs) h = (Inl TypeError, h)
   \<and> Node_init Other h = (Inl TypeError, h)"
  by (simp add: Node_init_def)

section \<open>The derivative rules of the operators\<close>

text \<open>
  Claim C1, evaluated at \<^verbatim>\<open>Node(2) ** Node(3)\<close>.  The result node has the value
  \<open>2\<^sup>3 = 8\<close> and the base receives the edge weight \<open>3 * 2\<^sup>2 = 12\<close>, but the exponent
  receives the weight \<open>8 * ln 3\<close>, the logarithm of the exponent, where the derivative of
  \<open>a\<^sup>b\<close> in \<open>b\<close> is \<open>a\<^sup>b * ln a = 8 * ln 2\<close>.
\<close>

theorem pow_exponent_edge_uses_log_of_exponent:
  "Node_pow 0 (Ref 1)
     [\<lparr>val = 2, children = [], der = None\<rparr>, \<lparr>val = 3, children = [], der = None\<rparr>] =
   (Inr 2,
    [\<lparr>val = 2, children = [(2, 12)], der = None\<rparr>,
     \<lparr>val = 3, children = [(2, 8 * ln 3)], der = None\<rparr>,
     \<lparr>val = 8, children = [], der = None\<rparr>])
   \<and> 8 * ln 3 \<noteq> 8 * ln (2::real)"
  by (simp add: Node_pow_def monad_defs py_pow_def float_power_result_def pow_weight_def
      math_log_def)




section \<open>The driver on a shared subexpression\<close>

text \<open>
  Claim C2.  For every \<open>x0\<close> the driver returns the gradient \<open>[8 * x0]\<close> of
  \<^verbatim>\<open>lambda x: (x + x) * (x + x)\<close> at \<open>[x0]\<close>, on any heap and with room for three nested
  calls of the backward pass: the input node is consumed four times and each of the two
  sums once.
\<close>

theorem diamond_gradient:
  "fst (AutoDiffR1D (Suc (Suc (Suc d))) (Function f_diamond) (PList [Num x0]) h) = Inr [8 * x0]"
  apply (simp add: AutoDiffR1D_def signature_def call_def f_diamond_def monad_defs
      Node_add_def Node_mul_def Node_AutoDiffR_def)
  apply (simp add: nth_append)
  done

section \<open>Type and dimension errors\<close>

text \<open>
  Claim C4 as stated fails: comparing a node for equality with an object that is neither
  a \<^verbatim>\<open>Node\<close> nor a number returns \<^verbatim>\<open>False\<close> (and \<^verbatim>\<open>!=\<close> returns \<^verbatim>\<open>True\<close>) instead
  of raising \<^verbatim>\<open>TypeError\<close>; and the operand checks are not the only type validation,
  the constructor rejects a value that is not a number.
\<close>

theorem eq_returns_False_counterexample:
  "Node_eq (Suc 0) 0 Other [\<lparr>val = 3, children = [], der = None\<rparr>] = Inr False
   \<and> Node_ne (Suc 0) 0 Other [\<lparr>val = 3, children = [], der = None\<rparr>] = Inr True
   \<and> Node_init Other [] = (Inl TypeError, [])"
  by (simp add: Node_ne_def Node_init_def)

text \<open>
  Claim C4, amended.  When the other operand is neither a \<^verbatim>\<open>Node\<close> nor a real number,
  every arithmetic operator, plain or reflected, and every ordering comparison
  (\<open><\<close>, \<open>>\<close>, \<open>\<le>\<close>, \<open>\<ge>\<close>) raises \<^verbatim>\<open>TypeError\<close> and leaves the heap as it was, whereas
  \<open>=\<close> returns \<^verbatim>\<open>False\<close> and \<open>\<noteq>\<close> returns \<^verbatim>\<open>True\<close>, as they do for a real number;
  and the driver raises \<^verbatim>\<open>TypeError\<close> when its first argument has no signature.
\<close>

theorem operand_type_errors:
  assumes "\<not> Node_or_real v"
  shows "Node_add a v h = (Inl TypeError, h) \<and> Node_radd a v h = (Inl TypeError, h)
       \<and> Node_sub a v h = (Inl TypeError, h) \<and> Node_rsub a v h = (Inl TypeError, h)
       \<and> Node_mul a v h = (Inl TypeError, h) \<and> Node_rmul a v h = (Inl TypeError, h)
       \<and> Node_truediv a v h = (Inl TypeError, h) \<and> Node_rtruediv a v h = (Inl TypeError, h)
       \<and> Node_pow a v h = (Inl TypeError, h) \<and> Node_rpow a v h = (Inl TypeError, h)
       \<and> Node_lt a v h = Inl TypeError \<and> Node_gt a v h = Inl TypeError
       \<and> Node_le a v h = Inl TypeError \<and> Node_ge a v h = Inl TypeError
       \<and> Node_eq (Suc d) a v h = Inr False \<and> Node_ne (Suc d) a v h = Inr True
       \<and> Node_eq (Suc d) a (Num c) h = Inr False \<and> Node_ne (Suc d) a (Num c) h = Inr True
       \<and> AutoDiffR1D k NotCallable p h = (Inl TypeError, h)"
  using assms
  by (cases v)
     (simp_all add: Node_or_real_def Node_add_def Node_radd_def Node_sub_def Node_rsub_def
        Node_mul_def Node_rmul_def Node_truediv_def Node_rtruediv_def Node_pow_def Node_rpow_def
        Node_lt_def Node_gt_def Node_le_def Node_ge_def Node_ne_def raise_def
        AutoDiffR1D_def signature_def)

theorem operand_type_errors_witness:
  "\<not> Node_or_real Other
   \<and> Node_add 0 Other [\<lparr>val = 3, children = [], der = None\<rparr>]
        = (Inl TypeError, [\<lparr>val = 3, children = [], der = None\<rparr>])
   \<and> Node_lt 0 Other [\<lparr>val = 3, children = [], der = None\<rparr>] = Inl TypeError
   \<and> Node_eq (Suc 0) 0 Other [\<lparr>val = 3, children = [], der = None\<rparr>] = Inr False
   \<and> AutoDiffR1D 1 NotCallable (PList [Num 1]) [\<lparr>val = 3, children = [], der = None\<rparr>]
        = (Inl TypeError, [\<lparr>val = 3, children = [], der = None\<rparr>])"
  using operand_type_errors [where v = Other and a = 0 and d = 0 and c = 0 and k = 1
      and h = "[\<lparr>val = 3, children = [], der = None\<rparr>]" and p = "PList [Num 1]"]
  by (simp add: Node_or_real_def)

text \<open>
  Claim C5 as stated fails: \<^verbatim>\<open>def f(x, *, k=3)\<close> declares one positional parameter, and
  the driver still rejects the one-element point \<open>[2]\<close>, because it counts the
  keyword-only parameter as well.
\<close>

theorem keyword_only_counterexample:
  "positional_count (parameters f_keyword_only) = length [Num 2]
   \<and> AutoDiffR1D 5 (Function f_keyword_only) (PList [Num 2]) [] = (Inl DimensionMismatch, [])"
  by (simp add: positional_count_def f_keyword_only_def AutoDiffR1D_def signature_def)

text \<open>
  Claim C5, amended.  For a function with a signature, whose body does not itself raise
  the dimension-mismatch exception, and a point sequence, the driver raises the
  dimension-mismatch exception if and only if the length of the point differs from the
  number of parameters in the signature of \<open>f\<close>, parameters of every kind counted; on a
  mismatch the heap is left as it was and no gradient is returned.
\<close>

theorem dimension_mismatch_iff:
  assumes "\<forall>args h0. fst (body f args h0) \<noteq> Inl DimensionMismatch"
  shows "(fst (AutoDiffR1D d (Function f) (PList vs) h) = Inl DimensionMismatch
            \<longleftrightarrow> length vs \<noteq> length (parameters f))
       \<and> (length vs \<noteq> length (parameters f)
            \<longrightarrow> AutoDiffR1D d (Function f) (PList vs) h = (Inl DimensionMismatch, h))"
proof -
  have no: "fst (AutoDiffR1D d (Function f) (PList vs) h) \<noteq> Inl DimensionMismatch"
    if eq: "length vs = length (parameters f)"
  proof
    assume dm: "fst (AutoDiffR1D d (Function f) (PList vs) h) = Inl DimensionMismatch"
    obtain r1 h1 where mv: "make_variables vs h = (r1, h1)" by (cases "make_variables vs h")
    show False
    proof (cases r1)
      case (Inl e)
      with mv dm eq have "e = DimensionMismatch"
        by (simp add: AutoDiffR1D_def signature_def seq_def)
      moreover from mv Inl have "e = TypeError"
        using make_variables_error [of vs h e h1] by simp
      ultimately show False by simp
    next
      case (Inr variables)
      obtain r2 h2 where cl: "body f variables h1 = (r2, h2)" by (cases "body f variables h1")
      show False
      proof (cases r2)
        case (Inl e)
        with mv Inr cl dm eq have "e = DimensionMismatch"
          by (simp add: AutoDiffR1D_def signature_def seq_def call_def)
        with assms cl Inl show False by (metis fst_conv)
      next
        case res: (Inr result)
        show False
        proof (cases result)
          case (Ref out)
          with mv Inr cl res dm eq
          have "fst (AutoDiffR_loop d variables [] (h2[out := (h2 ! out)\<lparr>der := Some 1\<rparr>])) = Inl DimensionMismatch"
            by (simp add: AutoDiffR1D_def signature_def seq_def call_def Node_AutoDiffR_def)
          then obtain h3 where
            "AutoDiffR_loop d variables [] (h2[out := (h2 ! out)\<lparr>der := Some 1\<rparr>]) = (Inl DimensionMismatch, h3)"
            by (cases "AutoDiffR_loop d variables [] (h2[out := (h2 ! out)\<lparr>der := Some 1\<rparr>])") simp
          from AutoDiffR_loop_error [OF this] show False by simp
        qed (use mv Inr cl res dm eq in \<open>simp_all add: AutoDiffR1D_def signature_def seq_def call_def raise_def\<close>)
      qed
    qed
  qed
  have yes: "AutoDiffR1D d (Function f) (PList vs) h = (Inl DimensionMismatch, h)"
    if "length vs \<noteq> length (parameters f)"
    using that by (auto simp: AutoDiffR1D_def signature_def)
  from no yes show ?thesis by (metis fst_conv)
qed

theorem dimension_mismatch_iff_witness:
  "(\<forall>args h0. fst (body f_quotient args h0) \<noteq> Inl DimensionMismatch)
   \<and> length [Num 1] \<noteq> length (parameters f_quotient)
   \<and> AutoDiffR1D 2 (Function f_quotient) (PList [Num 1]) [] = (Inl DimensionMismatch, [])
   \<and> fst (AutoDiffR1D 2 (Function f_quotient) (PList [Num 1, Num 2]) []) \<noteq> Inl DimensionMismatch"
  using dimension_mismatch_iff [where f = f_quotient and d = 2 and vs = "[Num 1]" and h = "[]"]
    dimension_mismatch_iff [where f = f_quotient and d = 2 and vs = "[Num 1, Num 2]" and h = "[]"]
    f_quotient_no_mismatch
  by (simp add: f_quotient_def)

section \<open>Batch evaluation\<close>

text \<open>
  Claim C6.  Given a list of functions and a list of points, \<^verbatim>\<open>AutoDiffR\<close> raises the
  length-mismatch exception, on the unchanged heap, when the two lists differ in length;
  otherwise it is the batch of the specification: it returns the gradient vectors
  \<^verbatim>\<open>AutoDiffR1D(f_i, point_i)\<close> in order, element for element, each evaluation running
  on the heap the previous one has left, and the first exception of an evaluation ends
  the batch.  Given a single function it is \<^verbatim>\<open>AutoDiffR1D\<close> on the same arguments.
\<close>

theorem AutoDiffR_batch:
  "AutoDiffR d (FList fs) (PList vals) h =
     (if length fs \<noteq> length vals then (Inl LengthMismatch, h)
      else case evaluate_each d (zip fs vals) h of
             (Inl e, h') \<Rightarrow> (Inl e, h')
           | (Inr gs, h') \<Rightarrow> (Inr (Gradients gs), h'))
   \<and> (\<forall>gs h'. AutoDiffR d (FList fs) (PList vals) h = (Inr (Gradients gs), h') \<longrightarrow>
         length gs = length fs
         \<and> (\<exists>hs. length hs = Suc (length fs) \<and> hs ! 0 = h \<and> hs ! length fs = h'
               \<and> (\<forall>i<length fs. AutoDiffR1D d (fs ! i) (vals ! i) (hs ! i)
                                    = (Inr (gs ! i), hs ! Suc i))))
   \<and> AutoDiffR d (FSingle f) v h =
       (case AutoDiffR1D d f v h of
          (Inl e, h') \<Rightarrow> (Inl e, h')
        | (Inr g, h') \<Rightarrow> (Inr (Gradient g), h'))"
proof (intro conjI allI impI)
  show eq: "AutoDiffR d (FList fs) (PList vals) h =
     (if length fs \<noteq> length vals then (Inl LengthMismatch, h)
      else case evaluate_each d (zip fs vals) h of
             (Inl e, h') \<Rightarrow> (Inl e, h')
           | (Inr gs, h') \<Rightarrow> (Inr (Gradients gs), h'))"
    by (auto simp: AutoDiffR_def AutoDiffR_zip_evaluate_each split: prod.splits sum.splits)
  show "AutoDiffR d (FSingle f) v h =
       (case AutoDiffR1D d f v h of
          (Inl e, h') \<Rightarrow> (Inl e, h')
        | (Inr g, h') \<Rightarrow> (Inr (Gradient g), h'))"
    by (simp add: AutoDiffR_def)
  fix gs h' assume r: "AutoDiffR d (FList fs) (PList vals) h = (Inr (Gradients gs), h')"
  with eq have len: "length fs = length vals"
    and ev: "evaluate_each d (zip fs vals) h = (Inr gs, h')"
    by (auto split: if_splits prod.splits sum.splits)
  from evaluate_each_elementwise [OF ev] len
  obtain hs where 1: "length gs = length fs" and 2: "length hs = Suc (length fs)" "hs ! 0 = h"
    "hs ! length fs = h'"
    and 3: "\<forall>i<length fs. AutoDiffR1D d (fst (zip fs vals ! i)) (snd (zip fs vals ! i)) (hs ! i)
                                = (Inr (gs ! i), hs ! Suc i)"
    by auto
  show "length gs = length fs" by (rule 1)
  show "\<exists>hs. length hs = Suc (length fs) \<and> hs ! 0 = h \<and> hs ! length fs = h'
               \<and> (\<forall>i<length fs. AutoDiffR1D d (fs ! i) (vals ! i) (hs ! i)
                                    = (Inr (gs ! i), hs ! Suc i))"
    using 2 3 len by (intro exI [of _ hs]) auto
qed

theorem AutoDiffR_batch_witness:
  "\<exists>h' hs. AutoDiffR 2 (FList [Function f_quotient, Function f_quotient])
               (PList [PList [Num 1, Num 2], PList [Num 3, Num 4]]) []
             = (Inr (Gradients [[1 / 2, - (1 / 4)], [1 / 4, - (3 / 16)]]), h')
     \<and> length hs = 3 \<and> hs ! 0 = [] \<and> hs ! 2 = h'
     \<and> AutoDiffR1D 2 (Function f_quotient) (PList [Num 1, Num 2]) (hs ! 0)
           = (Inr [1 / 2, - (1 / 4)], hs ! 1)
     \<and> AutoDiffR1D 2 (Function f_quotient) (PList [Num 3, Num 4]) (hs ! 1)
           = (Inr [1 / 4, - (3 / 16)], hs ! 2)"
proof -
  let ?fs = "[Function f_quotient, Function f_quotient]"
  let ?vs = "[PList [Num 1, Num 2], PList [Num 3, Num 4]]"
  let ?gs = "[[1 / 2, - (1 / 4)], [1 / 4, - (3 / 16)]] :: real list list"
  have "fst (AutoDiffR 2 (FList ?fs) (PList ?vs) []) = Inr (Gradients ?gs)"
    by (simp add: AutoDiffR_def AutoDiffR1D_def signature_def call_def f_quotient_def monad_defs
        Node_truediv_def Node_AutoDiffR_def py_div_def numeral_2_eq_2 pow_weight_square
        square_in_range_def)
  then obtain h' where ev: "AutoDiffR 2 (FList ?fs) (PList ?vs) [] = (Inr (Gradients ?gs), h')"
    by (cases "AutoDiffR 2 (FList ?fs) (PList ?vs) []") simp
  from AutoDiffR_batch [where d = 2 and fs = ?fs and vals = ?vs and h = "[]"] ev
  obtain hs where hs: "length hs = Suc (length ?fs)" "hs ! 0 = []" "hs ! length ?fs = h'"
    and el: "\<forall>i<length ?fs. AutoDiffR1D 2 (?fs ! i) (?vs ! i) (hs ! i) = (Inr (?gs ! i), hs ! Suc i)"
    by blast
  from el [rule_format, of 0] el [rule_format, of 1]
  have "AutoDiffR1D 2 (?fs ! 0) (?vs ! 0) (hs ! 0) = (Inr (?gs ! 0), hs ! Suc 0)"
    and "AutoDiffR1D 2 (?fs ! 1) (?vs ! 1) (hs ! 1) = (Inr (?gs ! 1), hs ! Suc 1)"
    by simp_all
  with ev hs show ?thesis
    by (intro exI [of _ h'] exI [of _ hs]) (simp add: numeral_2_eq_2 numeral_3_eq_3)
qed

section \<open>The memoised backward pass\<close>

text \<open>
  Claim C3.  On a heap whose edges point forward, with room for the nested calls,
  \<^verbatim>\<open>get_gradient\<close> returns the gradient of the specification and caches it in the node:
  for a node without derivative that is the sum over its edges of the gradient of the
  successor times the weight, hence zero for a node without edges; and a later read, for
  which one call suffices, returns the same value and leaves the heap as it is.  A node
  whose derivative is set returns it and leaves the heap as it is.
\<close>

theorem get_gradient_memoised:
  assumes "forward_edges h" and "n < length h" and "length h - n \<le> d"
  shows "\<exists>h'. get_gradient d n h = (Inr (gradient_of h n), h')
            \<and> der (h' ! n) = Some (gradient_of h n)
            \<and> get_gradient (Suc k) n h' = (Inr (gradient_of h n), h')
            \<and> (der (h ! n) = None \<longrightarrow>
                 gradient_of h n = sum_list (map (\<lambda>e. gradient_of h (fst e) * snd e) (children (h ! n))))
            \<and> (der (h ! n) = None \<and> children (h ! n) = [] \<longrightarrow> gradient_of h n = 0)
            \<and> (\<forall>g. der (h ! n) = Some g \<longrightarrow> h' = h \<and> gradient_of h n = g)"
proof -
  from get_gradient_correct(1) [OF assms]
  obtain h' where gg: "get_gradient d n h = (Inr (gradient_of h n), h')"
    and dr: "der (h' ! n) = Some (gradient_of h n)" by blast
  have again: "get_gradient (Suc k) n h' = (Inr (gradient_of h n), h')"
    using dr by simp
  have sum: "gradient_of h n = sum_list (map (\<lambda>e. gradient_of h (fst e) * snd e) (children (h ! n)))"
    if "der (h ! n) = None"
    using gradient_of_forward [OF assms(1,2) that] .
  have zero: "gradient_of h n = 0" if "der (h ! n) = None" "children (h ! n) = []"
    using sum [OF that(1)] that(2) by simp
  have set: "h' = h \<and> gradient_of h n = g" if "der (h ! n) = Some g" for g
  proof -
    from assms(2,3) obtain d' where "d = Suc d'" by (cases d) auto
    with that gg show ?thesis by simp
  qed
  show ?thesis
  proof (intro exI [of _ h'] conjI impI allI)
    show "get_gradient d n h = (Inr (gradient_of h n), h')" by (rule gg)
    show "der (h' ! n) = Some (gradient_of h n)" by (rule dr)
    show "get_gradient (Suc k) n h' = (Inr (gradient_of h n), h')" by (rule again)
    show "gradient_of h n = sum_list (map (\<lambda>e. gradient_of h (fst e) * snd e) (children (h ! n)))"
      if "der (h ! n) = None" using that by (rule sum)
    show "gradient_of h n = 0" if "der (h ! n) = None \<and> children (h ! n) = []"
      using that zero by blast
    show "h' = h" if "der (h ! n) = Some g" for g using set [OF that] by simp
    show "gradient_of h n = g" if "der (h ! n) = Some g" for g using set [OF that] by simp
  qed
qed

theorem get_gradient_memoised_witness:
  "forward_edges [\<lparr>val = 2, children = [(1, 3)], der = None\<rparr>, \<lparr>val = 6, children = [], der = Some 1\<rparr>]
   \<and> (0::nat) < length [\<lparr>val = 2, children = [(1, 3)], der = None\<rparr>, \<lparr>val = 6, children = [], der = Some 1\<rparr>]
   \<and> get_gradient 2 0 [\<lparr>val = 2, children = [(1, 3)], der = None\<rparr>, \<lparr>val = 6, children = [], der = Some 1\<rparr>]
       = (Inr 3, [\<lparr>val = 2, children = [(1, 3)], der = Some 3\<rparr>, \<lparr>val = 6, children = [], der = Some 1\<rparr>])
   \<and> gradient_of [\<lparr>val = 2, children = [(1, 3)], der = None\<rparr>, \<lparr>val = 6, children = [], der = Some 1\<rparr>] 0 = 3
   \<and> get_gradient (Suc 0) 0 [\<lparr>val = 2, children = [(1, 3)], der = Some 3\<rparr>, \<lparr>val = 6, children = [], der = Some 1\<rparr>]
       = (Inr 3, [\<lparr>val = 2, children = [(1, 3)], der = Some 3\<rparr>, \<lparr>val = 6, children = [], der = Some 1\<rparr>])"
proof -
  let ?h = "[\<lparr>val = 2, children = [(1, 3)], der = None\<rparr>, \<lparr>val = 6, children = [], der = Some 1\<rparr>]"
  let ?h' = "[\<lparr>val = 2, children = [(1, 3)], der = Some 3\<rparr>, \<lparr>val = 6, children = [], der = Some 1\<rparr>]"
  have fe: "forward_edges ?h" by (simp add: forward_edges_def less_Suc_eq)
  have ev: "get_gradient 2 0 ?h = (Inr 3, ?h')" by (simp add: numeral_2_eq_2)
  from get_gradient_memoised [where h = ?h and n = 0 and d = 2 and k = 0, OF fe]
  obtain h' where "get_gradient 2 0 ?h = (Inr (gradient_of ?h 0), h')"
    and "get_gradient (Suc 0) 0 h' = (Inr (gradient_of ?h 0), h')"
    by auto
  with ev fe show ?thesis by simp
qed

section \<open>Acyclicity and termination\<close>

text \<open>
  Claim C8.  On every heap reached with the constructor and the arithmetic operators of
  \<^verbatim>\<open>Node\<close> (and with the seeding and the backward pass of the driver), the edges of a
  node point only to allocated nodes created strictly after it, and \<^verbatim>\<open>get_gradient\<close>
  returns a gradient on every node \<open>n\<close>, provided the interpreter allows as many nested
  calls as there are nodes from \<open>n\<close> on.
\<close>

theorem reachable_acyclic_terminates:
  assumes "reachable h"
  shows "forward_edges h
       \<and> (\<forall>n<length h. \<forall>d. length h - n \<le> d \<longrightarrow> (\<exists>g h'. get_gradient d n h = (Inr g, h')))"
proof (intro conjI allI impI)
  show fe: "forward_edges h" using assms by (rule reachable_forward_edges)
  fix n d assume "n < length h" "length h - n \<le> d"
  from get_gradient_correct(1) [OF fe this]
  show "\<exists>g h'. get_gradient d n h = (Inr g, h')" by blast
qed

theorem reachable_acyclic_terminates_witness:
  "reachable [\<lparr>val = 2, children = [(1, 1), (1, 1)], der = None\<rparr>, \<lparr>val = 4, children = [], der = None\<rparr>]
   \<and> forward_edges [\<lparr>val = 2, children = [(1, 1), (1, 1)], der = None\<rparr>, \<lparr>val = 4, children = [], der = None\<rparr>]
   \<and> (\<exists>g h'. get_gradient 2 0
         [\<lparr>val = 2, children = [(1, 1), (1, 1)], der = None\<rparr>, \<lparr>val = 4, children = [], der = None\<rparr>]
         = (Inr g, h'))"
proof -
  let ?h = "[\<lparr>val = 2, children = [(1, 1), (1, 1)], der = None\<rparr>, \<lparr>val = 4, children = [], der = None\<rparr>]"
  have "reachable (snd (Node_add 0 (Ref 0) (snd (Node_init (Num 2) []))))"
    by (intro reachable.add reachable.init reachable.start)
       (simp_all add: Node_init_def valid_operand_def)
  then have r: "reachable ?h"
    by (simp add: Node_add_def monad_defs)
  from reachable_acyclic_terminates [OF r] r show ?thesis by simp
qed

section \<open>Immutability of values\<close>

text \<open>
  Claim C9.  No statement changes the value of an existing node: the constructor, every
  arithmetic operator (returning or raising), the backward pass and \<^verbatim>\<open>_AutoDiffR\<close>
  leave every node of the heap in place with its value; so do \<^verbatim>\<open>AutoDiffR1D\<close> and
  \<^verbatim>\<open>AutoDiffR\<close> when the calls of the user functions do.
\<close>

theorem values_immutable:
  "vals_preserved h (snd (Node_init v h))
   \<and> vals_preserved h (snd (Node_add a v h)) \<and> vals_preserved h (snd (Node_radd a v h))
   \<and> vals_preserved h (snd (Node_sub a v h)) \<and> vals_preserved h (snd (Node_rsub a v h))
   \<and> vals_preserved h (snd (Node_mul a v h)) \<and> vals_preserved h (snd (Node_rmul a v h))
   \<and> vals_preserved h (snd (Node_truediv a v h)) \<and> vals_preserved h (snd (Node_rtruediv a v h))
   \<and> vals_preserved h (snd (Node_pow a v h)) \<and> vals_preserved h (snd (Node_rpow a v h))
   \<and> vals_preserved h (snd (Node_neg a h))
   \<and> vals_preserved h (snd (get_gradient d a h))
   \<and> vals_preserved h (snd (Node_AutoDiffR d a vars h))
   \<and> ((\<forall>args h0. vals_preserved h0 (snd (call f args h0)))
        \<longrightarrow> vals_preserved h (snd (AutoDiffR1D d f p h)))
   \<and> ((\<forall>f\<in>set fs. \<forall>args h0. vals_preserved h0 (snd (call f args h0)))
        \<longrightarrow> vals_preserved h (snd (AutoDiffR d (FList fs) p h)))"
proof -
  have "vals_preserved h (snd (AutoDiffR1D d f p h))"
    if "\<forall>args h0. vals_preserved h0 (snd (call f args h0))"
    using that by (intro vp_AutoDiffR1D) blast
  moreover have "vals_preserved h (snd (AutoDiffR d (FList fs) p h))"
    if "\<forall>f\<in>set fs. \<forall>args h0. vals_preserved h0 (snd (call f args h0))"
    using that by (rule vp_AutoDiffR_FList)
  ultimately show ?thesis
    by (simp add: vp_Node_init vp_Node_add vp_Node_sub vp_Node_rsub vp_Node_mul vp_Node_truediv
      vp_Node_rtruediv vp_Node_pow vp_Node_rpow vp_get_gradient vp_Node_AutoDiffR
      Node_radd_def Node_rmul_def Node_neg_def)
qed

theorem values_immutable_witness:
  "(\<forall>args h0. vals_preserved h0 (snd (call (Function f_diamond) args h0)))
   \<and> vals_preserved [\<lparr>val = 2, children = [], der = None\<rparr>]
        (snd (AutoDiffR1D 3 (Function f_diamond) (PList [Num 5]) [\<lparr>val = 2, children = [], der = None\<rparr>]))
   \<and> vals_preserved [\<lparr>val = 2, children = [], der = None\<rparr>]
        (snd (AutoDiffR 3 (FList [Function f_diamond]) (PList [PList [Num 5]])
           [\<lparr>val = 2, children = [], der = None\<rparr>]))
   \<and> vals_preserved [\<lparr>val = 2, children = [], der = None\<rparr>]
        (snd (Node_pow 0 (Num 3) [\<lparr>val = 2, children = [], der = None\<rparr>]))"
  using values_immutable [where h = "[\<lparr>val = 2, children = [], der = None\<rparr>]" and d = 3
      and f = "Function f_diamond" and p = "PList [Num 5]" and a = 0 and v = "Num 3"]
    values_immutable [where h = "[\<lparr>val = 2, children = [], der = None\<rparr>]" and d = 3
      and fs = "[Function f_diamond]" and p = "PList [PList [Num 5]]"]
    vp_f_diamond
  by simp

end
